theory Spec2Isabelle
  imports Main
begin

section \<open>The MQTT helper of MaskCam (maskcam/mqtt_common.py)\<close>

text \<open>
  The module keeps one process-wide bounded queue of unsent messages
  (\<^verbatim>\<open>mqtt_msg_queue = Queue(maxsize=100)\<close>) and offers three operations on it:
  \<^verbatim>\<open>mqtt_send_queue\<close> (the drain), \<^verbatim>\<open>mqtt_send_msg\<close> (the publish entry point) and the
  connect handler \<^verbatim>\<open>cb_on_connect\<close> that \<^verbatim>\<open>mqtt_connect_broker\<close> installs on the client.

  Everything the functions do besides returning a value is made explicit: the queue
  and the ordered list of observable effects (lines printed, subscriptions, calls of
  the transport's publish) form the state that every function takes and returns.
\<close>

subsection \<open>Data\<close>

text \<open>
  A queued message is the dictionary \<^verbatim>\<open>{"topic": topic, "message": message}\<close>. The payload
  type \<open>'p\<close> stands for the JSON-serialisable values the callers pass; the encoding
  \<^verbatim>\<open>json.dumps(message)\<close> done right before the transport call is not modelled, the
  effect log records the payload itself.
\<close>

record 'p q_msg =
  topic :: string
  message :: 'p

text \<open>
  The module's \<^verbatim>\<open>print\<close> is \<^verbatim>\<open>print_mqtt\<close>, which takes the flags \<^verbatim>\<open>warning=True\<close> and
  \<^verbatim>\<open>error=True\<close>; a plain call is logged at level \<open>Info\<close>.
\<close>

datatype level = Info | Warning | Error

datatype 'p event =
    Print level string
  | PrintValue 'p
  | PrintSubs "(string \<times> nat) list"
  | PrintCode level string int
  | Subscribe "(string \<times> nat) list"
  | Publish string 'p int

text \<open>
  \<open>Publish tp msg rc\<close> is one call \<^verbatim>\<open>mqtt_client.publish(tp, json.dumps(msg))\<close> whose
  result has \<^verbatim>\<open>result[0] == rc\<close>; \<open>Subscribe subs\<close> is \<^verbatim>\<open>client.subscribe(subs)\<close>.
\<close>

record 'p state =
  mqtt_msg_queue :: "'p q_msg list"
  events :: "'p event list"

text \<open>
  A live client is represented by the result code its \<^verbatim>\<open>publish\<close> gives, as a function
  of everything that has happened so far, of the topic and of the payload. This covers
  every deterministic transport and every fixed schedule of successes and failures.
  The argument \<^verbatim>\<open>mqtt_client\<close> of the Python functions is \<^verbatim>\<open>None\<close> or such a client.
\<close>

type_synonym 'p client = "'p event list \<Rightarrow> string \<Rightarrow> 'p \<Rightarrow> int"

subsection \<open>The bounded queue\<close>

definition maxsize :: nat where
  "maxsize = 100"

definition emit :: "'p event \<Rightarrow> 'p state \<Rightarrow> 'p state" where
  "emit e s = s\<lparr>events := events s @ [e]\<rparr>"

definition full :: "'p state \<Rightarrow> bool" where
  "full s = (maxsize \<le> length (mqtt_msg_queue s))"

text \<open>
  In this first model the queue is the list of its messages, oldest first, used by one
  thread, and a message is seen by \<^verbatim>\<open>empty()\<close> as soon as it is put. A
  \<^verbatim>\<open>multiprocessing.Queue\<close> does not promise that: \<^verbatim>\<open>put\<close> hands the message to a feeder
  thread, and \<^verbatim>\<open>empty()\<close> looks at the pipe the feeder writes to. The second model, further
  down, has the feeder; this one is its special case in which the feeder has always
  caught up (lemma \<open>fed_refines_ideal\<close>). \<^verbatim>\<open>put_nowait\<close> appends at the tail. The source
  calls it only under \<^verbatim>\<open>not full()\<close>, and \<^verbatim>\<open>get_nowait\<close> only under \<^verbatim>\<open>not empty()\<close>, so
  \<^verbatim>\<open>queue.Full\<close> and \<^verbatim>\<open>queue.Empty\<close> are never raised; the removal of the head is the list
  pattern \<open>q_msg # rest\<close> below.
\<close>

definition put_nowait :: "'p q_msg \<Rightarrow> 'p state \<Rightarrow> 'p state" where
  "put_nowait m s = s\<lparr>mqtt_msg_queue := mqtt_msg_queue s @ [m]\<rparr>"

subsection \<open>Drain and publish\<close>

text \<open>
  The two functions call each other: the drain hands every message it removes to
  \<^verbatim>\<open>mqtt_send_msg\<close> (with the default \<^verbatim>\<open>enqueue=True\<close>), and \<^verbatim>\<open>mqtt_send_msg\<close> starts with
  a drain of its own before it publishes. The \<^verbatim>\<open>while\<close> loop of the drain is the
  recursive call in the branch where the last send succeeded.
\<close>

function mqtt_send_queue :: "'p client option \<Rightarrow> 'p state \<Rightarrow> bool \<times> 'p state"
  and mqtt_send_msg ::
    "'p client option \<Rightarrow> string \<Rightarrow> 'p \<Rightarrow> bool \<Rightarrow> 'p state \<Rightarrow> bool \<times> 'p state"
where
  "mqtt_send_queue mqtt_client s =
    (case mqtt_msg_queue s of
       [] \<Rightarrow> (True, s)
     | q_msg # rest \<Rightarrow>
         (let s1 = s\<lparr>mqtt_msg_queue := rest\<rparr>;
              s2 = emit (Print Info (''Sending enqueued message to topic: '' @ topic q_msg)) s1;
              r = mqtt_send_msg mqtt_client (topic q_msg) (message q_msg) True s2
          in if fst r then mqtt_send_queue mqtt_client (snd r) else (False, snd r)))"
| "mqtt_send_msg mqtt_client tp msg enqueue s =
    (case mqtt_client of
       None \<Rightarrow>
         (False, emit (Print Info (''MQTT not connected. Skipping message to topic: '' @ tp)) s)
     | Some cl \<Rightarrow>
         (let s1 = snd (mqtt_send_queue mqtt_client s);
              rc = cl (events s1) tp msg;
              s2 = emit (Publish tp msg rc) s1
          in if rc = 0 then
               (True, emit (PrintValue msg)
                        (emit (Print Info (tp @ '' | MQTT message [green]SENT[/green]'')) s2))
             else if enqueue then
               (if \<not> full s2 then
                  (False, put_nowait \<lparr>topic = tp, message = msg\<rparr>
                     (emit (Print Info (tp @ '' | MQTT message [yellow]ENQUEUED[/yellow]'')) s2))
                else
                  (False,
                   emit (Print Error (tp @ '' | MQTT message [red]DROPPED: FULL QUEUE[/red]'')) s2))
             else
               (False,
                emit (Print Warning (tp @ '' | MQTT message [yellow]DISCARDED[/yellow]'')) s2)))"
  by pat_completeness auto

text \<open>
  The recursion is nested (the loop continues on the state a nested call returns), so
  the bound on the queue length that termination needs is first shown wherever the
  functions are defined.
\<close>

lemma drain_length_partial:
  "mqtt_send_queue_mqtt_send_msg_dom (Inl (c, s)) \<Longrightarrow>
     length (mqtt_msg_queue (snd (mqtt_send_queue c s))) \<le> length (mqtt_msg_queue s)"
  "mqtt_send_queue_mqtt_send_msg_dom (Inr (c, tp, msg, enq, s')) \<Longrightarrow>
     length (mqtt_msg_queue (snd (mqtt_send_msg c tp msg enq s')))
       \<le> Suc (length (mqtt_msg_queue s')) \<and>
     (fst (mqtt_send_msg c tp msg enq s') \<longrightarrow>
       length (mqtt_msg_queue (snd (mqtt_send_msg c tp msg enq s')))
         \<le> length (mqtt_msg_queue s'))"
proof (induction c s and c tp msg enq s' rule: mqtt_send_queue_mqtt_send_msg.pinduct)
  case (1 mqtt_client s)
  show ?case
  proof (cases "mqtt_msg_queue s")
    case Nil
    with 1(1) show ?thesis by (simp add: mqtt_send_queue.psimps)
  next
    case (Cons q_msg rest)
    define s2 where
      "s2 = emit (Print Info (''Sending enqueued message to topic: '' @ topic q_msg))
              (s\<lparr>mqtt_msg_queue := rest\<rparr>)"
    define r where "r = mqtt_send_msg mqtt_client (topic q_msg) (message q_msg) True s2"
    have len2: "length (mqtt_msg_queue s2) = length rest"
      by (simp add: s2_def emit_def)
    have inner: "length (mqtt_msg_queue (snd r)) \<le> Suc (length rest) \<and>
               (fst r \<longrightarrow> length (mqtt_msg_queue (snd r)) \<le> length rest)"
      using 1(2)[OF Cons refl refl] len2 by (simp add: r_def s2_def)
    have unfolded: "mqtt_send_queue mqtt_client s =
              (if fst r then mqtt_send_queue mqtt_client (snd r) else (False, snd r))"
      using 1(1) Cons by (simp add: mqtt_send_queue.psimps Let_def r_def s2_def)
    show ?thesis
    proof (cases "fst r")
      case True
      have "length (mqtt_msg_queue (snd (mqtt_send_queue mqtt_client (snd r))))
              \<le> length (mqtt_msg_queue (snd r))"
        using 1(3)[OF Cons refl refl refl] True by (simp add: r_def s2_def)
      with inner True unfolded Cons show ?thesis by simp
    next
      case False
      with inner unfolded Cons show ?thesis by simp
    qed
  qed
next
  case (2 mqtt_client tp msg enqueue s)
  then show ?case
    by (auto simp: mqtt_send_msg.psimps Let_def emit_def put_nowait_def split: option.splits)
qed

lemma drain_call_relation_wf:
  "wf (measure (\<lambda>x. case x of
            Inl (c, s) \<Rightarrow> 2 * length (mqtt_msg_queue s)
          | Inr (c, tp, msg, enq, s) \<Rightarrow> 2 * length (mqtt_msg_queue s) + 1))"
  by simp

lemma all_calls_terminate: "All mqtt_send_queue_mqtt_send_msg_dom"
proof (relation "measure (\<lambda>x. case x of
            Inl (c, s) \<Rightarrow> 2 * length (mqtt_msg_queue s)
          | Inr (c, tp, msg, enq, s) \<Rightarrow> 2 * length (mqtt_msg_queue s) + 1)", goal_cases)
  case 1
  show ?case by (rule drain_call_relation_wf)
next
  case (2 mqtt_client s q_msg rest s1 s2)
  then show ?case by (simp add: emit_def)
next
  case (3 mqtt_client s q_msg rest s1 s2 r)
  then show ?case
    using drain_length_partial(2)[of mqtt_client "topic q_msg" "message q_msg" True s2]
    by (simp add: emit_def)
next
  case (4 mqtt_client tp msg enqueue s cl)
  show ?case by simp
qed

termination mqtt_send_queue
  by (rule all_calls_terminate)

declare mqtt_send_queue.simps [simp del] mqtt_send_msg.simps [simp del]

text \<open>Both functions are total, and neither makes the queue longer than the bound says.\<close>

lemma call_terminates: "mqtt_send_queue_mqtt_send_msg_dom x"
  by (rule all_calls_terminate[THEN spec])

lemma drain_length:
  "length (mqtt_msg_queue (snd (mqtt_send_queue c s))) \<le> length (mqtt_msg_queue s)"
  by (rule drain_length_partial(1)) (rule call_terminates)

lemma send_msg_length:
  "length (mqtt_msg_queue (snd (mqtt_send_msg c tp msg enq s))) \<le> Suc (length (mqtt_msg_queue s))"
  using drain_length_partial(2)[OF call_terminates, of c tp msg enq s] by simp

lemma send_msg_length_sent:
  "fst (mqtt_send_msg c tp msg enq s) \<Longrightarrow>
   length (mqtt_msg_queue (snd (mqtt_send_msg c tp msg enq s))) \<le> length (mqtt_msg_queue s)"
  using drain_length_partial(2)[OF call_terminates, of c tp msg enq s] by simp

subsection \<open>Depth of the nested drains\<close>

text \<open>
  A measure of the call tree of the two functions above: \<open>drain_depth c s\<close> is the largest
  number of activations of \<^verbatim>\<open>mqtt_send_queue\<close> that are stacked inside one activation of it
  started on \<open>s\<close> (the nested drain that \<^verbatim>\<open>mqtt_send_msg\<close> starts counts one more than what
  it nests itself; successive rounds of the loop are at the same level).
\<close>

function drain_depth :: "'p client option \<Rightarrow> 'p state \<Rightarrow> nat" where
  "drain_depth mqtt_client s =
    (case mqtt_msg_queue s of
       [] \<Rightarrow> 0
     | q_msg # rest \<Rightarrow>
         (let s1 = s\<lparr>mqtt_msg_queue := rest\<rparr>;
              s2 = emit (Print Info (''Sending enqueued message to topic: '' @ topic q_msg)) s1;
              r = mqtt_send_msg mqtt_client (topic q_msg) (message q_msg) True s2
          in max (case mqtt_client of None \<Rightarrow> 0 | Some cl \<Rightarrow> Suc (drain_depth mqtt_client s2))
                 (if fst r then drain_depth mqtt_client (snd r) else 0)))"
  by pat_completeness auto
termination
proof (relation "measure (\<lambda>(c, s). length (mqtt_msg_queue s))", goal_cases)
  case 1
  show ?case by simp
next
  case (2 mqtt_client s q_msg rest s1 s2 r cl)
  then show ?case by (simp add: emit_def)
next
  case (3 mqtt_client s q_msg rest s1 s2 r)
  then show ?case
    using send_msg_length_sent[of mqtt_client "topic q_msg" "message q_msg" True s2]
    by (simp add: emit_def)
qed

declare drain_depth.simps [simp del]

subsection \<open>The connect handler\<close>

text \<open>
  \<^verbatim>\<open>cb_on_connect\<close> is a closure over the arguments \<^verbatim>\<open>subscribe_to\<close> and \<^verbatim>\<open>cb_success\<close> of
  \<^verbatim>\<open>mqtt_connect_broker\<close>; both default to \<^verbatim>\<open>None\<close>. The test \<^verbatim>\<open>if subscribe_to:\<close> is false
  for \<^verbatim>\<open>None\<close> and for the empty list. The caller's callback is any function of the
  client and the state. The arguments \<^verbatim>\<open>userdata\<close> and \<^verbatim>\<open>flags\<close> are not read.
\<close>

definition cb_on_connect ::
  "(string \<times> nat) list option \<Rightarrow> ('p client \<Rightarrow> 'p state \<Rightarrow> 'p state) option \<Rightarrow>
   'p client \<Rightarrow> int \<Rightarrow> 'p state \<Rightarrow> 'p state" where
  "cb_on_connect subscribe_to cb_success client code s =
    (if code = 0 then
       (let s1 = emit (Print Info ''[green]Connected to MQTT Broker[/green]'') s;
            s2 = (case subscribe_to of
                    None \<Rightarrow> s1
                  | Some subs \<Rightarrow>
                      if subs \<noteq> [] then
                        emit (Subscribe subs)
                          (emit (PrintSubs subs)
                             (emit (Print Info ''Subscribing to topics:'') s1))
                      else s1);
            s3 = (case cb_success of None \<Rightarrow> s2 | Some f \<Rightarrow> f client s2);
            r = mqtt_send_queue (Some client) s3
        in if \<not> fst r then
             emit (Print Warning ''Failed to send MQTT message queue after connecting'') (snd r)
           else snd r)
     else
       emit (PrintCode Warning ''Failed to connect to MQTT[/red], return code '' code) s)"

subsection \<open>Reading the effect log\<close>

text \<open>The messages handed to the transport, in the order of the calls.\<close>

fun published :: "'p event list \<Rightarrow> 'p q_msg list" where
  "published [] = []"
| "published (Publish tp msg rc # es) = \<lparr>topic = tp, message = msg\<rparr> # published es"
| "published (e # es) = published es"

subsection \<open>The queue with its feeder thread\<close>

text \<open>
  \<^verbatim>\<open>multiprocessing.Queue.put\<close> takes a slot of the semaphore that counts the capacity and
  appends the message to an internal buffer; a feeder thread writes the buffer to a pipe,
  oldest message first, at its own pace. \<^verbatim>\<open>empty()\<close> is \<^verbatim>\<open>not self._poll()\<close>: it tests the pipe
  only, and \<^verbatim>\<open>get_nowait\<close> reads from the pipe and gives the slot back. \<^verbatim>\<open>full()\<close> tests the
  semaphore, so it counts the messages of the pipe and of the buffer.

  The state has the pipe and the buffer apart. What the feeder does between two tests
  of \<^verbatim>\<open>empty()\<close> shows only at the second one, so its pace is a schedule read at each test:
  the next entry of \<open>feeder\<close> is the number of buffered messages written to the pipe since
  the test before. Once the schedule is used up the feeder has caught up at every test.
\<close>

record 'p fed_state =
  pipe :: "'p q_msg list"
  buffer :: "'p q_msg list"
  fed_events :: "'p event list"
  feeder :: "nat list"

definition feed :: "'p fed_state \<Rightarrow> 'p fed_state" where
  "feed s =
    (case feeder s of
       [] \<Rightarrow> s\<lparr>pipe := pipe s @ buffer s, buffer := []\<rparr>
     | n # ns \<Rightarrow>
         s\<lparr>pipe := pipe s @ take n (buffer s), buffer := drop n (buffer s), feeder := ns\<rparr>)"

definition fed_emit :: "'p event \<Rightarrow> 'p fed_state \<Rightarrow> 'p fed_state" where
  "fed_emit e s = s\<lparr>fed_events := fed_events s @ [e]\<rparr>"

definition qsize :: "'p fed_state \<Rightarrow> nat" where
  "qsize s = length (pipe s) + length (buffer s)"

definition fed_full :: "'p fed_state \<Rightarrow> bool" where
  "fed_full s = (maxsize \<le> qsize s)"

definition fed_put_nowait :: "'p q_msg \<Rightarrow> 'p fed_state \<Rightarrow> 'p fed_state" where
  "fed_put_nowait m s = s\<lparr>buffer := buffer s @ [m]\<rparr>"

text \<open>
  The two functions again, line by line as above, on this queue: the loop test feeds
  the pipe and looks at it.
\<close>

function mqtt_send_queue_fed ::
    "'p client option \<Rightarrow> 'p fed_state \<Rightarrow> bool \<times> 'p fed_state"
  and mqtt_send_msg_fed ::
    "'p client option \<Rightarrow> string \<Rightarrow> 'p \<Rightarrow> bool \<Rightarrow> 'p fed_state \<Rightarrow> bool \<times> 'p fed_state"
where
  "mqtt_send_queue_fed mqtt_client s =
    (let s0 = feed s
     in case pipe s0 of
          [] \<Rightarrow> (True, s0)
        | q_msg # rest \<Rightarrow>
            (let s1 = s0\<lparr>pipe := rest\<rparr>;
                 s2 = fed_emit
                        (Print Info (''Sending enqueued message to topic: '' @ topic q_msg)) s1;
                 r = mqtt_send_msg_fed mqtt_client (topic q_msg) (message q_msg) True s2
             in if fst r then mqtt_send_queue_fed mqtt_client (snd r) else (False, snd r)))"
| "mqtt_send_msg_fed mqtt_client tp msg enqueue s =
    (case mqtt_client of
       None \<Rightarrow>
         (False,
          fed_emit (Print Info (''MQTT not connected. Skipping message to topic: '' @ tp)) s)
     | Some cl \<Rightarrow>
         (let s1 = snd (mqtt_send_queue_fed mqtt_client s);
              rc = cl (fed_events s1) tp msg;
              s2 = fed_emit (Publish tp msg rc) s1
          in if rc = 0 then
               (True, fed_emit (PrintValue msg)
                        (fed_emit (Print Info (tp @ '' | MQTT message [green]SENT[/green]'')) s2))
             else if enqueue then
               (if \<not> fed_full s2 then
                  (False, fed_put_nowait \<lparr>topic = tp, message = msg\<rparr>
                     (fed_emit
                        (Print Info (tp @ '' | MQTT message [yellow]ENQUEUED[/yellow]'')) s2))
                else
                  (False,
                   fed_emit
                     (Print Error (tp @ '' | MQTT message [red]DROPPED: FULL QUEUE[/red]'')) s2))
             else
               (False,
                fed_emit
                  (Print Warning (tp @ '' | MQTT message [yellow]DISCARDED[/yellow]'')) s2)))"
  by pat_completeness auto

lemma qsize_feed: "qsize (feed s) = qsize s"
  by (auto simp: feed_def qsize_def min_def split: list.splits)

lemma fed_qsize_partial:
  "mqtt_send_queue_fed_mqtt_send_msg_fed_dom (Inl (c, s)) \<Longrightarrow>
     qsize (snd (mqtt_send_queue_fed c s)) \<le> qsize s"
  "mqtt_send_queue_fed_mqtt_send_msg_fed_dom (Inr (c, tp, msg, enq, s')) \<Longrightarrow>
     qsize (snd (mqtt_send_msg_fed c tp msg enq s')) \<le> Suc (qsize s') \<and>
     (fst (mqtt_send_msg_fed c tp msg enq s') \<longrightarrow>
       qsize (snd (mqtt_send_msg_fed c tp msg enq s')) \<le> qsize s')"
proof (induction c s and c tp msg enq s' rule: mqtt_send_queue_fed_mqtt_send_msg_fed.pinduct)
  case (1 mqtt_client s)
  show ?case
  proof (cases "pipe (feed s)")
    case Nil
    with 1(1) show ?thesis by (simp add: mqtt_send_queue_fed.psimps qsize_feed)
  next
    case (Cons q_msg rest)
    define s2 where
      "s2 = fed_emit (Print Info (''Sending enqueued message to topic: '' @ topic q_msg))
              ((feed s)\<lparr>pipe := rest\<rparr>)"
    define r where "r = mqtt_send_msg_fed mqtt_client (topic q_msg) (message q_msg) True s2"
    have size2: "Suc (qsize s2) = qsize s"
      using Cons qsize_feed[of s] by (simp add: s2_def fed_emit_def qsize_def)
    have inner: "qsize (snd r) \<le> Suc (qsize s2) \<and> (fst r \<longrightarrow> qsize (snd r) \<le> qsize s2)"
      using 1(2)[OF refl Cons refl refl] by (simp add: r_def s2_def)
    have unfolded: "mqtt_send_queue_fed mqtt_client s =
              (if fst r then mqtt_send_queue_fed mqtt_client (snd r) else (False, snd r))"
      using 1(1) Cons by (simp add: mqtt_send_queue_fed.psimps Let_def r_def s2_def)
    show ?thesis
    proof (cases "fst r")
      case True
      have "qsize (snd (mqtt_send_queue_fed mqtt_client (snd r))) \<le> qsize (snd r)"
        using 1(3)[OF refl Cons refl refl refl] True by (simp add: r_def s2_def)
      with inner True unfolded size2 show ?thesis by simp
    next
      case False
      with inner unfolded size2 show ?thesis by simp
    qed
  qed
next
  case (2 mqtt_client tp msg enqueue s)
  then show ?case
    by (auto simp: mqtt_send_msg_fed.psimps Let_def fed_emit_def fed_put_nowait_def qsize_def
             split: option.splits)
qed

lemma fed_calls_terminate: "All mqtt_send_queue_fed_mqtt_send_msg_fed_dom"
proof (relation "measure (\<lambda>x. case x of
            Inl (c, s) \<Rightarrow> 2 * qsize s
          | Inr (c, tp, msg, enq, s) \<Rightarrow> 2 * qsize s + 1)", goal_cases)
  case 1
  show ?case by simp
next
  case (2 mqtt_client s s0 q_msg rest s1 s2)
  then show ?case
    using qsize_feed[of s] by (simp add: fed_emit_def qsize_def)
next
  case (3 mqtt_client s s0 q_msg rest s1 s2 r)
  then show ?case
    using fed_qsize_partial(2)[of mqtt_client "topic q_msg" "message q_msg" True s2]
      qsize_feed[of s]
    by (simp add: fed_emit_def qsize_def)
next
  case (4 mqtt_client tp msg enqueue s cl)
  show ?case by simp
qed

termination mqtt_send_queue_fed
  by (rule fed_calls_terminate)

declare mqtt_send_queue_fed.simps [simp del] mqtt_send_msg_fed.simps [simp del]

text \<open>The state of the first model that a state of this one stands for.\<close>

definition visible_at_once :: "'p fed_state \<Rightarrow> 'p state" where
  "visible_at_once s = \<lparr>mqtt_msg_queue = pipe s @ buffer s, events = fed_events s\<rparr>"

section \<open>Properties\<close>

subsection \<open>Unfolded equations\<close>

lemma mqtt_send_queue_Nil:
  "mqtt_msg_queue s = [] \<Longrightarrow> mqtt_send_queue c s = (True, s)"
  by (simp add: mqtt_send_queue.simps)

lemma mqtt_send_queue_Cons:
  "mqtt_msg_queue s = q_msg # rest \<Longrightarrow>
   mqtt_send_queue c s =
     (let r = mqtt_send_msg c (topic q_msg) (message q_msg) True
                (emit (Print Info (''Sending enqueued message to topic: '' @ topic q_msg))
                   (s\<lparr>mqtt_msg_queue := rest\<rparr>))
      in if fst r then mqtt_send_queue c (snd r) else (False, snd r))"
  by (subst mqtt_send_queue.simps) (simp add: Let_def)

lemma mqtt_send_msg_None:
  "mqtt_send_msg None tp msg enqueue s =
     (False, emit (Print Info (''MQTT not connected. Skipping message to topic: '' @ tp)) s)"
  by (simp add: mqtt_send_msg.simps)

subsection \<open>Evaluation on concrete states\<close>

text \<open>
  Rewrite rules that run the two functions on a state written out with its fields; they
  unfold one call at a time, so a run is evaluated in a number of steps linear in its
  length.
\<close>

lemma published_append: "published (xs @ ys) = published xs @ published ys"
  by (induction xs rule: published.induct) simp_all

lemma mqtt_send_queue_run_Nil:
  "mqtt_send_queue c \<lparr>mqtt_msg_queue = [], events = es\<rparr>
     = (True, \<lparr>mqtt_msg_queue = [], events = es\<rparr>)"
  by (simp add: mqtt_send_queue_Nil)

lemma mqtt_send_queue_run_Cons:
  "mqtt_send_queue c \<lparr>mqtt_msg_queue = q_msg # rest, events = es\<rparr>
     = (case mqtt_send_msg c (topic q_msg) (message q_msg) True
               \<lparr>mqtt_msg_queue = rest,
                events = es @ [Print Info (''Sending enqueued message to topic: '' @ topic q_msg)]\<rparr>
        of (success, s') \<Rightarrow> if success then mqtt_send_queue c s' else (False, s'))"
  by (subst mqtt_send_queue.simps) (simp add: Let_def emit_def split: prod.splits)

lemma mqtt_send_msg_run_Some:
  "mqtt_send_msg (Some cl) tp msg enqueue \<lparr>mqtt_msg_queue = q, events = es\<rparr>
     = (case mqtt_send_queue (Some cl) \<lparr>mqtt_msg_queue = q, events = es\<rparr> of
          (success, s1) \<Rightarrow>
            (let rc = cl (events s1) tp msg;
                 s2 = emit (Publish tp msg rc) s1
             in if rc = 0 then
                  (True, emit (PrintValue msg)
                           (emit (Print Info (tp @ '' | MQTT message [green]SENT[/green]'')) s2))
                else if enqueue then
                  (if \<not> full s2 then
                     (False, put_nowait \<lparr>topic = tp, message = msg\<rparr>
                        (emit (Print Info (tp @ '' | MQTT message [yellow]ENQUEUED[/yellow]'')) s2))
                   else
                     (False,
                      emit (Print Error (tp @ '' | MQTT message [red]DROPPED: FULL QUEUE[/red]'')) s2))
                else
                  (False,
                   emit (Print Warning (tp @ '' | MQTT message [yellow]DISCARDED[/yellow]'')) s2)))"
  by (subst mqtt_send_msg.simps) (simp add: Let_def split: prod.splits)

lemmas run_defs = mqtt_send_queue_run_Nil mqtt_send_queue_run_Cons mqtt_send_msg_run_Some
  mqtt_send_msg_None emit_def put_nowait_def full_def maxsize_def

text \<open>Unfolded equations and evaluation rules for the queue with its feeder.\<close>

lemma mqtt_send_queue_fed_Nil:
  "pipe (feed s) = [] \<Longrightarrow> mqtt_send_queue_fed c s = (True, feed s)"
  by (simp add: mqtt_send_queue_fed.simps)

lemma mqtt_send_queue_fed_Cons:
  "pipe (feed s) = q_msg # rest \<Longrightarrow>
   mqtt_send_queue_fed c s =
     (let r = mqtt_send_msg_fed c (topic q_msg) (message q_msg) True
                (fed_emit (Print Info (''Sending enqueued message to topic: '' @ topic q_msg))
                   ((feed s)\<lparr>pipe := rest\<rparr>))
      in if fst r then mqtt_send_queue_fed c (snd r) else (False, snd r))"
  by (subst mqtt_send_queue_fed.simps) (simp add: Let_def)

lemma fed_call_terminates: "mqtt_send_queue_fed_mqtt_send_msg_fed_dom x"
  by (rule fed_calls_terminate[THEN spec])

lemma fed_send_msg_qsize_sent:
  "fst (mqtt_send_msg_fed c tp msg enq s) \<Longrightarrow>
   qsize (snd (mqtt_send_msg_fed c tp msg enq s)) \<le> qsize s"
  using fed_qsize_partial(2)[OF fed_call_terminates, of c tp msg enq s] by simp

lemma feed_run:
  "feed \<lparr>pipe = p, buffer = b, fed_events = es, feeder = []\<rparr>
     = \<lparr>pipe = p @ b, buffer = [], fed_events = es, feeder = []\<rparr>"
  "feed \<lparr>pipe = p, buffer = b, fed_events = es, feeder = n # ns\<rparr>
     = \<lparr>pipe = p @ take n b, buffer = drop n b, fed_events = es, feeder = ns\<rparr>"
  by (simp_all add: feed_def)

lemma mqtt_send_queue_fed_run:
  "mqtt_send_queue_fed c \<lparr>pipe = p, buffer = b, fed_events = es, feeder = f\<rparr>
     = (case pipe (feed \<lparr>pipe = p, buffer = b, fed_events = es, feeder = f\<rparr>) of
          [] \<Rightarrow> (True, feed \<lparr>pipe = p, buffer = b, fed_events = es, feeder = f\<rparr>)
        | q_msg # rest \<Rightarrow>
            (case mqtt_send_msg_fed c (topic q_msg) (message q_msg) True
                    (fed_emit
                       (Print Info (''Sending enqueued message to topic: '' @ topic q_msg))
                       ((feed \<lparr>pipe = p, buffer = b, fed_events = es, feeder = f\<rparr>)
                          \<lparr>pipe := rest\<rparr>))
             of (success, s') \<Rightarrow>
               if success then mqtt_send_queue_fed c s' else (False, s')))"
  by (subst mqtt_send_queue_fed.simps) (simp add: Let_def split: prod.splits list.splits)

lemma mqtt_send_msg_fed_run:
  "mqtt_send_msg_fed (Some cl) tp msg enqueue
      \<lparr>pipe = p, buffer = b, fed_events = es, feeder = f\<rparr>
     = (case mqtt_send_queue_fed (Some cl)
               \<lparr>pipe = p, buffer = b, fed_events = es, feeder = f\<rparr> of
          (success, s1) \<Rightarrow>
            (let rc = cl (fed_events s1) tp msg;
                 s2 = fed_emit (Publish tp msg rc) s1
             in if rc = 0 then
                  (True, fed_emit (PrintValue msg)
                     (fed_emit (Print Info (tp @ '' | MQTT message [green]SENT[/green]'')) s2))
                else if enqueue then
                  (if \<not> fed_full s2 then
                     (False, fed_put_nowait \<lparr>topic = tp, message = msg\<rparr>
                        (fed_emit
                           (Print Info (tp @ '' | MQTT message [yellow]ENQUEUED[/yellow]'')) s2))
                   else
                     (False,
                      fed_emit
                        (Print Error (tp @ '' | MQTT message [red]DROPPED: FULL QUEUE[/red]''))
                        s2))
                else
                  (False,
                   fed_emit
                     (Print Warning (tp @ '' | MQTT message [yellow]DISCARDED[/yellow]'')) s2)))"
  by (subst mqtt_send_msg_fed.simps) (simp add: Let_def split: prod.splits)

lemmas fed_run_defs = feed_run mqtt_send_queue_fed_run mqtt_send_msg_fed_run
  fed_emit_def fed_put_nowait_def fed_full_def qsize_def maxsize_def

subsection \<open>Publishing without a client\<close>

text \<open>
  Claim C3, as amended. The claim says that a publish with no live connection (the client
  is \<^verbatim>\<open>None\<close>), with \<^verbatim>\<open>enqueue\<close> true and room in the queue, appends the message at the tail.
  The code returns at its first test instead: for every topic, payload and value of the
  flag, and whatever the length of the queue, \<^verbatim>\<open>mqtt_send_msg\<close> with no client returns
  \<^verbatim>\<open>False\<close>, leaves the queue as it was, and makes no call of the transport.
\<close>

theorem publish_no_client_skips:
  "\<not> fst (mqtt_send_msg None tp msg enqueue s)
   \<and> mqtt_msg_queue (snd (mqtt_send_msg None tp msg enqueue s)) = mqtt_msg_queue s
   \<and> published (events (snd (mqtt_send_msg None tp msg enqueue s))) = published (events s)"
  by (simp add: mqtt_send_msg_None emit_def published_append)

theorem publish_no_client_skips_witness:
  "\<not> fst (mqtt_send_msg None ''alerts'' (7::nat) True
            \<lparr>mqtt_msg_queue = [\<lparr>topic = ''hello'', message = 1\<rparr>], events = []\<rparr>)
   \<and> mqtt_msg_queue (snd (mqtt_send_msg None ''alerts'' (7::nat) True
            \<lparr>mqtt_msg_queue = [\<lparr>topic = ''hello'', message = 1\<rparr>], events = []\<rparr>))
       = [\<lparr>topic = ''hello'', message = 1\<rparr>]
   \<and> published (events (snd (mqtt_send_msg None ''alerts'' (7::nat) True
            \<lparr>mqtt_msg_queue = [\<lparr>topic = ''hello'', message = 1\<rparr>], events = []\<rparr>))) = []"
  using publish_no_client_skips [of "''alerts''" "7::nat" True
      "\<lparr>mqtt_msg_queue = [\<lparr>topic = ''hello'', message = 1\<rparr>], events = []\<rparr>"]
  by simp

text \<open>
  The claim as stated fails on the empty queue: the message to topic \<^verbatim>\<open>alerts\<close> is not
  in the queue afterwards.
\<close>

theorem publish_no_client_not_enqueued:
  "mqtt_send_msg None ''alerts'' (7::nat) True \<lparr>mqtt_msg_queue = [], events = []\<rparr>
     = (False, \<lparr>mqtt_msg_queue = [],
                events = [Print Info ''MQTT not connected. Skipping message to topic: alerts'']\<rparr>)
   \<and> mqtt_msg_queue (snd (mqtt_send_msg None ''alerts'' (7::nat) True
                           \<lparr>mqtt_msg_queue = [], events = []\<rparr>))
       \<noteq> [\<lparr>topic = ''alerts'', message = 7\<rparr>]"
  by (simp add: run_defs)

text \<open>
  Claim C8. With \<^verbatim>\<open>enqueue=False\<close> and no client, for every topic and payload the message
  is discarded: the call returns \<^verbatim>\<open>False\<close> and the state differs from the one before only
  by the printed line, so the queue is exactly as it was.
\<close>

theorem publish_no_client_no_enqueue_frame:
  "mqtt_send_msg None tp msg False s =
     (False, s\<lparr>events := events s @
                 [Print Info (''MQTT not connected. Skipping message to topic: '' @ tp)]\<rparr>)"
  by (simp add: mqtt_send_msg_None emit_def)

theorem publish_no_client_no_enqueue_frame_witness:
  "mqtt_send_msg None ''commands'' ''go'' False
      \<lparr>mqtt_msg_queue = [\<lparr>topic = ''hello'', message = ''hi''\<rparr>], events = []\<rparr> =
     (False, \<lparr>mqtt_msg_queue = [\<lparr>topic = ''hello'', message = ''hi''\<rparr>],
              events = [Print Info ''MQTT not connected. Skipping message to topic: commands'']\<rparr>)"
  using publish_no_client_no_enqueue_frame [of "''commands''" "''go''"
      "\<lparr>mqtt_msg_queue = [\<lparr>topic = ''hello'', message = ''hi''\<rparr>], events = []\<rparr>"]
  by simp

subsection \<open>The order in which a backlog is sent\<close>

text \<open>
  With a transport that accepts everything a drain empties the queue and returns
  \<^verbatim>\<open>True\<close>, and the transport receives the backlog newest first: the messages handed to
  it are the queue reversed.
\<close>

lemma drain_all_succeed_reverses:
  assumes ok: "\<And>h tp msg. cl h tp msg = 0"
  shows "fst (mqtt_send_queue (Some cl) s)
    \<and> mqtt_msg_queue (snd (mqtt_send_queue (Some cl) s)) = []
    \<and> published (events (snd (mqtt_send_queue (Some cl) s)))
        = published (events s) @ rev (mqtt_msg_queue s)"
proof (induction "length (mqtt_msg_queue s)" arbitrary: s rule: less_induct)
  case less
  show ?case
  proof (cases "mqtt_msg_queue s")
    case Nil
    then show ?thesis by (simp add: mqtt_send_queue_Nil)
  next
    case (Cons q_msg rest)
    define s2 where
      "s2 = emit (Print Info (''Sending enqueued message to topic: '' @ topic q_msg))
              (s\<lparr>mqtt_msg_queue := rest\<rparr>)"
    define r where "r = mqtt_send_msg (Some cl) (topic q_msg) (message q_msg) True s2"
    have q2: "mqtt_msg_queue s2 = rest" and e2: "published (events s2) = published (events s)"
      by (simp_all add: s2_def emit_def published_append)
    have inner: "mqtt_msg_queue (snd (mqtt_send_queue (Some cl) s2)) = []"
      "published (events (snd (mqtt_send_queue (Some cl) s2))) = published (events s) @ rev rest"
      using less[of s2] q2 e2 Cons by simp_all
    have r_ok: "fst r" and r_queue: "mqtt_msg_queue (snd r) = []"
      and r_pub: "published (events (snd r)) = published (events s) @ rev rest @ [q_msg]"
      using inner ok
      by (simp_all add: r_def mqtt_send_msg.simps Let_def emit_def published_append)
    have "mqtt_send_queue (Some cl) s = mqtt_send_queue (Some cl) (snd r)"
      using mqtt_send_queue_Cons[OF Cons, of "Some cl"] r_ok by (simp add: Let_def r_def s2_def)
    also have "\<dots> = (True, snd r)"
      using r_queue by (rule mqtt_send_queue_Nil)
    finally show ?thesis
      using r_queue r_pub Cons by simp
  qed
qed

text \<open>
  Claim C1, evaluated on the example of the specification: five queued messages, the
  send of the third one fails and every other send succeeds. The claim expects the
  drain to send \<^verbatim>\<open>m1\<close> and \<^verbatim>\<open>m2\<close>, stop at \<^verbatim>\<open>m3\<close> and leave \<^verbatim>\<open>m3, m4, m5\<close>. The code hands
  the transport \<^verbatim>\<open>m5, m4, m3, m2, m3, m1, m3\<close> and leaves \<^verbatim>\<open>m3\<close> alone in the queue: each
  message taken from the queue goes to \<^verbatim>\<open>mqtt_send_msg\<close>, which drains the rest of the
  queue before it publishes. (The two further attempts at \<^verbatim>\<open>m3\<close> are those of a queue on
  which a put is seen at once; the lemma after the theorem runs the same input with a
  feeder that writes nothing meanwhile.)
\<close>

theorem drain_third_of_five_fails:
  "mqtt_msg_queue (snd (mqtt_send_queue (Some (\<lambda>h tp msg. if tp = ''m3'' then 1 else 0))
     \<lparr>mqtt_msg_queue =
        [\<lparr>topic = ''m1'', message = (1::nat)\<rparr>, \<lparr>topic = ''m2'', message = 2\<rparr>,
         \<lparr>topic = ''m3'', message = 3\<rparr>, \<lparr>topic = ''m4'', message = 4\<rparr>,
         \<lparr>topic = ''m5'', message = 5\<rparr>],
      events = []\<rparr>))
     = [\<lparr>topic = ''m3'', message = 3\<rparr>]
   \<and> published (events (snd (mqtt_send_queue (Some (\<lambda>h tp msg. if tp = ''m3'' then 1 else 0))
     \<lparr>mqtt_msg_queue =
        [\<lparr>topic = ''m1'', message = (1::nat)\<rparr>, \<lparr>topic = ''m2'', message = 2\<rparr>,
         \<lparr>topic = ''m3'', message = 3\<rparr>, \<lparr>topic = ''m4'', message = 4\<rparr>,
         \<lparr>topic = ''m5'', message = 5\<rparr>],
      events = []\<rparr>)))
     = [\<lparr>topic = ''m5'', message = 5\<rparr>, \<lparr>topic = ''m4'', message = 4\<rparr>,
        \<lparr>topic = ''m3'', message = 3\<rparr>, \<lparr>topic = ''m2'', message = 2\<rparr>,
        \<lparr>topic = ''m3'', message = 3\<rparr>, \<lparr>topic = ''m1'', message = 1\<rparr>,
        \<lparr>topic = ''m3'', message = 3\<rparr>]"
  by (simp add: run_defs)

text \<open>
  The same drain when the feeder thread writes nothing during the run: \<^verbatim>\<open>m3\<close> is put back
  once and not seen again, the transport receives \<^verbatim>\<open>m5, m4, m3, m2, m1\<close>, and the drain
  returns \<^verbatim>\<open>True\<close> with \<^verbatim>\<open>m3\<close> left. At both paces \<^verbatim>\<open>m5\<close> and \<^verbatim>\<open>m4\<close> are sent before \<^verbatim>\<open>m3\<close>
  fails, and only \<^verbatim>\<open>m3\<close> is left.
\<close>

lemma drain_third_of_five_fails_delayed:
  "fst (mqtt_send_queue_fed (Some (\<lambda>h tp msg. if tp = ''m3'' then 1 else 0))
     \<lparr>pipe =
        [\<lparr>topic = ''m1'', message = (1::nat)\<rparr>, \<lparr>topic = ''m2'', message = 2\<rparr>,
         \<lparr>topic = ''m3'', message = 3\<rparr>, \<lparr>topic = ''m4'', message = 4\<rparr>,
         \<lparr>topic = ''m5'', message = 5\<rparr>],
      buffer = [], fed_events = [], feeder = [0, 0, 0, 0, 0, 0, 0, 0, 0, 0, 0, 0]\<rparr>)
   \<and> pipe (snd (mqtt_send_queue_fed (Some (\<lambda>h tp msg. if tp = ''m3'' then 1 else 0))
     \<lparr>pipe =
        [\<lparr>topic = ''m1'', message = (1::nat)\<rparr>, \<lparr>topic = ''m2'', message = 2\<rparr>,
         \<lparr>topic = ''m3'', message = 3\<rparr>, \<lparr>topic = ''m4'', message = 4\<rparr>,
         \<lparr>topic = ''m5'', message = 5\<rparr>],
      buffer = [], fed_events = [], feeder = [0, 0, 0, 0, 0, 0, 0, 0, 0, 0, 0, 0]\<rparr>)) = []
   \<and> buffer (snd (mqtt_send_queue_fed (Some (\<lambda>h tp msg. if tp = ''m3'' then 1 else 0))
     \<lparr>pipe =
        [\<lparr>topic = ''m1'', message = (1::nat)\<rparr>, \<lparr>topic = ''m2'', message = 2\<rparr>,
         \<lparr>topic = ''m3'', message = 3\<rparr>, \<lparr>topic = ''m4'', message = 4\<rparr>,
         \<lparr>topic = ''m5'', message = 5\<rparr>],
      buffer = [], fed_events = [], feeder = [0, 0, 0, 0, 0, 0, 0, 0, 0, 0, 0, 0]\<rparr>))
       = [\<lparr>topic = ''m3'', message = 3\<rparr>]
   \<and> published (fed_events (snd
       (mqtt_send_queue_fed (Some (\<lambda>h tp msg. if tp = ''m3'' then 1 else 0))
     \<lparr>pipe =
        [\<lparr>topic = ''m1'', message = (1::nat)\<rparr>, \<lparr>topic = ''m2'', message = 2\<rparr>,
         \<lparr>topic = ''m3'', message = 3\<rparr>, \<lparr>topic = ''m4'', message = 4\<rparr>,
         \<lparr>topic = ''m5'', message = 5\<rparr>],
      buffer = [], fed_events = [], feeder = [0, 0, 0, 0, 0, 0, 0, 0, 0, 0, 0, 0]\<rparr>)))
     = [\<lparr>topic = ''m5'', message = 5\<rparr>, \<lparr>topic = ''m4'', message = 4\<rparr>,
        \<lparr>topic = ''m3'', message = 3\<rparr>, \<lparr>topic = ''m2'', message = 2\<rparr>,
        \<lparr>topic = ''m1'', message = 1\<rparr>]"
  by (simp add: fed_run_defs)

text \<open>
  Claim C2, evaluated on a queue of two messages with a transport that accepts
  everything: the connect handler empties the queue, but the transport receives \<^verbatim>\<open>B\<close>
  before \<^verbatim>\<open>A\<close>, the reverse of the order in which they were queued.
\<close>

theorem on_connect_drain_two_reversed:
  "published (events (cb_on_connect None None (\<lambda>h tp msg. 0) 0
      \<lparr>mqtt_msg_queue = [\<lparr>topic = ''A'', message = (1::nat)\<rparr>, \<lparr>topic = ''B'', message = 2\<rparr>],
       events = []\<rparr>))
     = [\<lparr>topic = ''B'', message = 2\<rparr>, \<lparr>topic = ''A'', message = 1\<rparr>]
   \<and> mqtt_msg_queue (cb_on_connect None None (\<lambda>h tp msg. 0) 0
      \<lparr>mqtt_msg_queue = [\<lparr>topic = ''A'', message = (1::nat)\<rparr>, \<lparr>topic = ''B'', message = 2\<rparr>],
       events = []\<rparr>) = []"
  by (simp add: cb_on_connect_def run_defs)

text \<open>
  Claim C5, evaluated on a publish of \<^verbatim>\<open>C\<close> with \<^verbatim>\<open>A, B\<close> queued and a transport that
  accepts everything: the new message does come last, but the two buffered messages
  reach the transport as \<^verbatim>\<open>B, A\<close>.
\<close>

theorem publish_after_backlog_order:
  "published (events (snd (mqtt_send_msg (Some (\<lambda>h tp msg. 0)) ''C'' (3::nat) True
      \<lparr>mqtt_msg_queue = [\<lparr>topic = ''A'', message = 1\<rparr>, \<lparr>topic = ''B'', message = 2\<rparr>],
       events = []\<rparr>)))
     = [\<lparr>topic = ''B'', message = 2\<rparr>, \<lparr>topic = ''A'', message = 1\<rparr>,
        \<lparr>topic = ''C'', message = 3\<rparr>]"
  by (simp add: run_defs)

subsection \<open>What the return values say\<close>

text \<open>
  When the feeder has always caught up, the two models run alike: same return values,
  same log, same messages left.
\<close>

lemma fed_refines_ideal:
  "feeder s = [] \<Longrightarrow>
     fst (mqtt_send_queue_fed c s) = fst (mqtt_send_queue c (visible_at_once s))
     \<and> visible_at_once (snd (mqtt_send_queue_fed c s)) = snd (mqtt_send_queue c (visible_at_once s))
     \<and> feeder (snd (mqtt_send_queue_fed c s)) = []
     \<and> (fst (mqtt_send_queue_fed c s) \<longrightarrow> buffer (snd (mqtt_send_queue_fed c s)) = [])"
  "feeder s' = [] \<Longrightarrow>
     fst (mqtt_send_msg_fed c tp msg enq s') = fst (mqtt_send_msg c tp msg enq (visible_at_once s'))
     \<and> visible_at_once (snd (mqtt_send_msg_fed c tp msg enq s'))
         = snd (mqtt_send_msg c tp msg enq (visible_at_once s'))
     \<and> feeder (snd (mqtt_send_msg_fed c tp msg enq s')) = []"
proof (induction c s and c tp msg enq s' rule: mqtt_send_queue_fed_mqtt_send_msg_fed.induct)
  case (1 mqtt_client s)
  have fed: "feed s = s\<lparr>pipe := pipe s @ buffer s, buffer := []\<rparr>"
    using 1(3) by (simp add: feed_def)
  show ?case
  proof (cases "pipe (feed s)")
    case Nil
    then have "mqtt_msg_queue (visible_at_once s) = []"
      using fed by (simp add: visible_at_once_def)
    then have "mqtt_send_queue mqtt_client (visible_at_once s) = (True, visible_at_once s)"
      by (rule mqtt_send_queue_Nil)
    then show ?thesis
      using Nil fed 1(3) by (simp add: mqtt_send_queue_fed_Nil visible_at_once_def)
  next
    case (Cons q_msg rest)
    define s2 where
      "s2 = fed_emit (Print Info (''Sending enqueued message to topic: '' @ topic q_msg))
              ((feed s)\<lparr>pipe := rest\<rparr>)"
    define r where "r = mqtt_send_msg_fed mqtt_client (topic q_msg) (message q_msg) True s2"
    define t2 where
      "t2 = emit (Print Info (''Sending enqueued message to topic: '' @ topic q_msg))
              ((visible_at_once s)\<lparr>mqtt_msg_queue := rest\<rparr>)"
    define r' where "r' = mqtt_send_msg mqtt_client (topic q_msg) (message q_msg) True t2"
    have queue: "mqtt_msg_queue (visible_at_once s) = q_msg # rest"
      using Cons fed by (simp add: visible_at_once_def)
    have feeder2: "feeder s2 = []"
      using fed 1(3) by (simp add: s2_def fed_emit_def)
    have abs2: "visible_at_once s2 = t2"
      using fed by (simp add: s2_def t2_def fed_emit_def emit_def visible_at_once_def)
    have inner: "fst r = fst r' \<and> visible_at_once (snd r) = snd r' \<and> feeder (snd r) = []"
      using 1(1)[OF refl Cons refl refl] feeder2 abs2
      by (simp add: r_def r'_def s2_def)
    have unfolded: "mqtt_send_queue_fed mqtt_client s =
        (if fst r then mqtt_send_queue_fed mqtt_client (snd r) else (False, snd r))"
      using mqtt_send_queue_fed_Cons[OF Cons, of mqtt_client] by (simp add: Let_def r_def s2_def)
    have unfolded': "mqtt_send_queue mqtt_client (visible_at_once s) =
        (if fst r' then mqtt_send_queue mqtt_client (snd r') else (False, snd r'))"
      using mqtt_send_queue_Cons[OF queue, of mqtt_client] by (simp add: Let_def r'_def t2_def)
    show ?thesis
    proof (cases "fst r")
      case True
      have "fst (mqtt_send_queue_fed mqtt_client (snd r))
              = fst (mqtt_send_queue mqtt_client (visible_at_once (snd r)))
          \<and> visible_at_once (snd (mqtt_send_queue_fed mqtt_client (snd r)))
              = snd (mqtt_send_queue mqtt_client (visible_at_once (snd r)))
          \<and> feeder (snd (mqtt_send_queue_fed mqtt_client (snd r))) = []
          \<and> (fst (mqtt_send_queue_fed mqtt_client (snd r)) \<longrightarrow>
               buffer (snd (mqtt_send_queue_fed mqtt_client (snd r))) = [])"
        using 1(2)[OF refl Cons refl refl refl] True inner by (simp add: r_def s2_def)
      with True inner unfolded unfolded' show ?thesis by simp
    next
      case False
      with inner unfolded unfolded' show ?thesis by simp
    qed
  qed
next
  case (2 mqtt_client tp msg enqueue s)
  show ?case
  proof (cases mqtt_client)
    case None
    then show ?thesis
      using 2(2)
      by (simp add: mqtt_send_msg_fed.simps mqtt_send_msg_None fed_emit_def emit_def
            visible_at_once_def)
  next
    case (Some cl)
    define s1 where "s1 = snd (mqtt_send_queue_fed mqtt_client s)"
    define t1 where "t1 = snd (mqtt_send_queue mqtt_client (visible_at_once s))"
    have inner: "t1 = visible_at_once s1" "feeder s1 = []"
      using 2(1)[OF Some] 2(2) by (simp_all add: s1_def t1_def)
    have "mqtt_send_msg_fed (Some cl) tp msg enqueue s =
          (let rc = cl (fed_events s1) tp msg; s2 = fed_emit (Publish tp msg rc) s1
           in if rc = 0 then
               (True, fed_emit (PrintValue msg)
                        (fed_emit (Print Info (tp @ '' | MQTT message [green]SENT[/green]'')) s2))
             else if enqueue then
               (if \<not> fed_full s2 then
                  (False, fed_put_nowait \<lparr>topic = tp, message = msg\<rparr>
                     (fed_emit
                        (Print Info (tp @ '' | MQTT message [yellow]ENQUEUED[/yellow]'')) s2))
                else
                  (False,
                   fed_emit
                     (Print Error (tp @ '' | MQTT message [red]DROPPED: FULL QUEUE[/red]'')) s2))
             else
               (False,
                fed_emit
                  (Print Warning (tp @ '' | MQTT message [yellow]DISCARDED[/yellow]'')) s2))"
      using Some by (subst mqtt_send_msg_fed.simps) (simp add: Let_def s1_def)
    moreover have "mqtt_send_msg (Some cl) tp msg enqueue (visible_at_once s) =
          (let rc = cl (events t1) tp msg; s2 = emit (Publish tp msg rc) t1
           in if rc = 0 then
               (True, emit (PrintValue msg)
                        (emit (Print Info (tp @ '' | MQTT message [green]SENT[/green]'')) s2))
             else if enqueue then
               (if \<not> full s2 then
                  (False, put_nowait \<lparr>topic = tp, message = msg\<rparr>
                     (emit (Print Info (tp @ '' | MQTT message [yellow]ENQUEUED[/yellow]'')) s2))
                else
                  (False,
                   emit (Print Error (tp @ '' | MQTT message [red]DROPPED: FULL QUEUE[/red]'')) s2))
             else
               (False,
                emit (Print Warning (tp @ '' | MQTT message [yellow]DISCARDED[/yellow]'')) s2))"
      using Some by (subst mqtt_send_msg.simps) (simp add: Let_def t1_def)
    ultimately show ?thesis
      using Some inner
      by (simp add: Let_def fed_emit_def emit_def fed_put_nowait_def put_nowait_def
            fed_full_def full_def qsize_def visible_at_once_def)
  qed
qed

text \<open>
  What the return value of the drain does say, at every pace of the feeder: after
  \<^verbatim>\<open>True\<close> the pipe is empty, after \<^verbatim>\<open>False\<close> a message is left in the queue, and when the
  feeder has always caught up \<^verbatim>\<open>True\<close> is returned exactly when no message is left.
\<close>

lemma fed_send_msg_failed_nonempty:
  "\<not> fst (mqtt_send_msg_fed (Some cl) tp msg True s) \<Longrightarrow>
   pipe (snd (mqtt_send_msg_fed (Some cl) tp msg True s))
     @ buffer (snd (mqtt_send_msg_fed (Some cl) tp msg True s)) \<noteq> []"
  by (auto simp: mqtt_send_msg_fed.simps Let_def fed_emit_def fed_put_nowait_def fed_full_def
                 qsize_def maxsize_def
           split: if_splits)

lemma fed_drain_returns:
  "(fst (mqtt_send_queue_fed (Some cl) s) \<longrightarrow> pipe (snd (mqtt_send_queue_fed (Some cl) s)) = [])
   \<and> (\<not> fst (mqtt_send_queue_fed (Some cl) s) \<longrightarrow>
        pipe (snd (mqtt_send_queue_fed (Some cl) s))
          @ buffer (snd (mqtt_send_queue_fed (Some cl) s)) \<noteq> [])"
proof (induction "qsize s" arbitrary: s rule: less_induct)
  case less
  show ?case
  proof (cases "pipe (feed s)")
    case Nil
    then show ?thesis by (simp add: mqtt_send_queue_fed_Nil)
  next
    case (Cons q_msg rest)
    define s2 where
      "s2 = fed_emit (Print Info (''Sending enqueued message to topic: '' @ topic q_msg))
              ((feed s)\<lparr>pipe := rest\<rparr>)"
    define r where "r = mqtt_send_msg_fed (Some cl) (topic q_msg) (message q_msg) True s2"
    have size2: "Suc (qsize s2) = qsize s"
      using Cons qsize_feed[of s] by (simp add: s2_def fed_emit_def qsize_def)
    have unfolded: "mqtt_send_queue_fed (Some cl) s =
        (if fst r then mqtt_send_queue_fed (Some cl) (snd r) else (False, snd r))"
      using mqtt_send_queue_fed_Cons[OF Cons, of "Some cl"] by (simp add: Let_def r_def s2_def)
    show ?thesis
    proof (cases "fst r")
      case True
      have "qsize (snd r) \<le> qsize s2"
        using fed_send_msg_qsize_sent[of "Some cl" "topic q_msg" "message q_msg" True s2] True
        by (simp add: r_def)
      then have "qsize (snd r) < qsize s"
        using size2 by simp
      from less[OF this] True unfolded show ?thesis by simp
    next
      case False
      then have "pipe (snd r) @ buffer (snd r) \<noteq> []"
        unfolding r_def by (rule fed_send_msg_failed_nonempty)
      with False unfolded show ?thesis by simp
    qed
  qed
qed

lemma drain_return_contract:
  "(fst (mqtt_send_queue_fed (Some cl) s) \<longrightarrow>
      pipe (snd (mqtt_send_queue_fed (Some cl) s)) = [])
   \<and> (\<not> fst (mqtt_send_queue_fed (Some cl) s) \<longrightarrow>
        pipe (snd (mqtt_send_queue_fed (Some cl) s))
          @ buffer (snd (mqtt_send_queue_fed (Some cl) s)) \<noteq> [])
   \<and> (feeder s = [] \<longrightarrow>
        fst (mqtt_send_queue_fed (Some cl) s)
          = (pipe (snd (mqtt_send_queue_fed (Some cl) s))
               @ buffer (snd (mqtt_send_queue_fed (Some cl) s)) = []))"
  using fed_drain_returns[of cl s] fed_refines_ideal(1)[of s "Some cl"]
  by auto

text \<open>
  Claim C7, evaluated on a queue of two messages with a client whose publish fails for
  \<^verbatim>\<open>B\<close>, when the feeder writes nothing during the run. The claim says the drain returns
  \<^verbatim>\<open>True\<close> only if the queue is empty at the exit of the loop. The drain takes \<^verbatim>\<open>A\<close>, the nested
  drain takes \<^verbatim>\<open>B\<close>, whose publish fails, so that \<^verbatim>\<open>B\<close> is put back; the result of the nested
  drain is dropped, \<^verbatim>\<open>A\<close> is sent, and the loop test finds the pipe empty: the drain returns
  \<^verbatim>\<open>True\<close> with \<^verbatim>\<open>B\<close> in the queue.
\<close>

theorem drain_true_with_message_buffered:
  "mqtt_send_queue_fed (Some (\<lambda>h tp msg. if tp = ''B'' then 1 else 0))
     \<lparr>pipe = [\<lparr>topic = ''A'', message = (1::nat)\<rparr>, \<lparr>topic = ''B'', message = 2\<rparr>],
      buffer = [], fed_events = [], feeder = [0, 0, 0, 0]\<rparr>
   = (True,
      \<lparr>pipe = [], buffer = [\<lparr>topic = ''B'', message = 2\<rparr>],
       fed_events =
         [Print Info ''Sending enqueued message to topic: A'',
          Print Info ''Sending enqueued message to topic: B'',
          Publish ''B'' 2 1,
          Print Info ''B | MQTT message [yellow]ENQUEUED[/yellow]'',
          Publish ''A'' 1 0,
          Print Info ''A | MQTT message [green]SENT[/green]'',
          PrintValue 1],
       feeder = []\<rparr>)"
  by (simp add: fed_run_defs)

text \<open>
  Claim C9. For every input, \<^verbatim>\<open>mqtt_send_msg\<close> returns a boolean, and it returns \<^verbatim>\<open>True\<close> if
  and only if there is a live client, the transport's publish was called for this
  message (after the drain) and reported result code 0. Every other outcome (no client,
  message enqueued, message dropped on a full queue, message discarded) returns
  \<^verbatim>\<open>False\<close>.
\<close>

theorem send_msg_true_iff_published_ok:
  "fst (mqtt_send_msg mqtt_client tp msg enqueue s) =
     (\<exists>cl. mqtt_client = Some cl
         \<and> cl (events (snd (mqtt_send_queue mqtt_client s))) tp msg = 0
         \<and> events (snd (mqtt_send_msg mqtt_client tp msg enqueue s))
             = events (snd (mqtt_send_queue mqtt_client s))
               @ [Publish tp msg 0,
                  Print Info (tp @ '' | MQTT message [green]SENT[/green]''),
                  PrintValue msg])"
  by (cases mqtt_client) (auto simp: mqtt_send_msg.simps Let_def emit_def put_nowait_def)

theorem send_msg_true_iff_published_ok_witness:
  "fst (mqtt_send_msg (Some (\<lambda>h tp msg. 0)) ''hello'' (1::nat) True
          \<lparr>mqtt_msg_queue = [], events = []\<rparr>)
   \<and> \<not> fst (mqtt_send_msg (Some (\<lambda>h tp msg. 4)) ''hello'' (1::nat) True
          \<lparr>mqtt_msg_queue = [], events = []\<rparr>)
   \<and> \<not> fst (mqtt_send_msg (Some (\<lambda>h tp msg. 4)) ''hello'' (1::nat) False
          \<lparr>mqtt_msg_queue = [], events = []\<rparr>)
   \<and> \<not> fst (mqtt_send_msg None ''hello'' (1::nat) True
          \<lparr>mqtt_msg_queue = [], events = []\<rparr>)"
  using send_msg_true_iff_published_ok [of "Some (\<lambda>h tp msg. 0)" "''hello''" "1::nat" True
      "\<lparr>mqtt_msg_queue = [], events = []\<rparr>"]
    send_msg_true_iff_published_ok [of "Some (\<lambda>h tp msg. 4)" "''hello''" "1::nat" True
      "\<lparr>mqtt_msg_queue = [], events = []\<rparr>"]
    send_msg_true_iff_published_ok [of "Some (\<lambda>h tp msg. 4)" "''hello''" "1::nat" False
      "\<lparr>mqtt_msg_queue = [], events = []\<rparr>"]
    send_msg_true_iff_published_ok [of None "''hello''" "1::nat" True
      "\<lparr>mqtt_msg_queue = [], events = []\<rparr>"]
  by (simp add: run_defs)

subsection \<open>The capacity of the queue\<close>

lemma send_msg_bounded:
  "length (mqtt_msg_queue s) \<le> maxsize \<Longrightarrow>
   length (mqtt_msg_queue (snd (mqtt_send_msg c tp msg enq s))) \<le> maxsize"
proof (cases c)
  case None
  assume "length (mqtt_msg_queue s) \<le> maxsize"
  with None show ?thesis by (simp add: mqtt_send_msg_None emit_def)
next
  case (Some cl)
  assume bound: "length (mqtt_msg_queue s) \<le> maxsize"
  have "length (mqtt_msg_queue (snd (mqtt_send_queue (Some cl) s))) \<le> maxsize"
    using drain_length[of "Some cl" s] bound by simp
  with Some show ?thesis
    by (simp add: mqtt_send_msg.simps Let_def emit_def put_nowait_def full_def)
qed

lemma publish_calls_bounded:
  "length (mqtt_msg_queue s) \<le> maxsize \<Longrightarrow>
   length (mqtt_msg_queue
     (foldl (\<lambda>s (c, tp, msg, enq). snd (mqtt_send_msg c tp msg enq s)) s calls)) \<le> maxsize"
proof (induction calls arbitrary: s)
  case Nil
  then show ?case by simp
next
  case (Cons call calls)
  obtain c tp msg enq where call: "call = (c, tp, msg, enq)"
    by (cases call) auto
  have "length (mqtt_msg_queue (snd (mqtt_send_msg c tp msg enq s))) \<le> maxsize"
    using Cons.prems by (rule send_msg_bounded)
  from Cons.IH[OF this] call show ?case by simp
qed

lemma send_msg_at_capacity:
  assumes "length (mqtt_msg_queue (snd (mqtt_send_queue (Some cl) s))) = maxsize"
    and "cl (events (snd (mqtt_send_queue (Some cl) s))) tp msg \<noteq> 0"
  shows "\<not> fst (mqtt_send_msg (Some cl) tp msg True s)"
    and "mqtt_msg_queue (snd (mqtt_send_msg (Some cl) tp msg True s))
           = mqtt_msg_queue (snd (mqtt_send_queue (Some cl) s))"
  using assms by (simp_all add: mqtt_send_msg.simps Let_def emit_def full_def)

text \<open>
  With a client whose publish always fails, a drain puts every message back, one after
  the other from the innermost call outwards: the queue comes out reversed.
\<close>

lemma drain_all_fail_reverses:
  "length (mqtt_msg_queue s) \<le> maxsize \<Longrightarrow>
   mqtt_msg_queue (snd (mqtt_send_queue (Some (\<lambda>h tp msg. 1)) s)) = rev (mqtt_msg_queue s)"
proof (induction "length (mqtt_msg_queue s)" arbitrary: s rule: less_induct)
  case less
  let ?c = "Some (\<lambda>(h :: 'a event list) (tp :: string) (msg :: 'a). 1 :: int)"
  show ?case
  proof (cases "mqtt_msg_queue s")
    case Nil
    then show ?thesis by (simp add: mqtt_send_queue_Nil)
  next
    case (Cons q_msg rest)
    define s2 where
      "s2 = emit (Print Info (''Sending enqueued message to topic: '' @ topic q_msg))
              (s\<lparr>mqtt_msg_queue := rest\<rparr>)"
    have q2: "mqtt_msg_queue s2 = rest"
      by (simp add: s2_def emit_def)
    have "length (mqtt_msg_queue s2) < length (mqtt_msg_queue s)"
      and small: "length (mqtt_msg_queue s2) < maxsize"
      using Cons less.prems q2 by simp_all
    then have inner: "mqtt_msg_queue (snd (mqtt_send_queue ?c s2)) = rev rest"
      using less.hyps[of s2] q2 by simp
    have "mqtt_send_msg ?c (topic q_msg) (message q_msg) True s2
            = (False, put_nowait \<lparr>topic = topic q_msg, message = message q_msg\<rparr>
                 (emit (Print Info (topic q_msg @ '' | MQTT message [yellow]ENQUEUED[/yellow]''))
                   (emit (Publish (topic q_msg) (message q_msg) 1)
                      (snd (mqtt_send_queue ?c s2)))))"
      using inner small q2
      by (simp add: mqtt_send_msg.simps Let_def emit_def full_def)
    then show ?thesis
      using mqtt_send_queue_Cons[OF Cons, of ?c] inner Cons
      by (simp add: Let_def s2_def emit_def put_nowait_def)
  qed
qed

text \<open>
  Claim C4. The capacity is 100. Starting from a queue within capacity, after any
  sequence of calls of \<^verbatim>\<open>mqtt_send_msg\<close> (each with its own client or none, topic, payload
  and flag) the queue is still within capacity. And when the enqueue is attempted on a
  queue at capacity (the queue holds 100 messages after the drain that precedes the
  publish, and the publish fails), the call returns \<^verbatim>\<open>False\<close> and the queue is left as it
  was at that moment: the message is not stored.
\<close>

theorem outbox_never_exceeds_capacity:
  assumes "length (mqtt_msg_queue s) \<le> maxsize"
  shows "maxsize = 100
    \<and> length (mqtt_msg_queue
         (foldl (\<lambda>s (c, tp, msg, enq). snd (mqtt_send_msg c tp msg enq s)) s calls)) \<le> maxsize
    \<and> (length (mqtt_msg_queue (snd (mqtt_send_queue (Some cl) s))) = maxsize
         \<and> cl (events (snd (mqtt_send_queue (Some cl) s))) tp msg \<noteq> 0 \<longrightarrow>
       \<not> fst (mqtt_send_msg (Some cl) tp msg True s)
         \<and> mqtt_msg_queue (snd (mqtt_send_msg (Some cl) tp msg True s))
             = mqtt_msg_queue (snd (mqtt_send_queue (Some cl) s)))"
  using assms publish_calls_bounded[OF assms, of calls] send_msg_at_capacity[of cl s tp msg]
  by (simp add: maxsize_def)

theorem outbox_never_exceeds_capacity_witness:
  "length (mqtt_msg_queue
     (foldl (\<lambda>s (c, tp, msg, enq). snd (mqtt_send_msg c tp msg enq s))
        \<lparr>mqtt_msg_queue = replicate 100 \<lparr>topic = ''t'', message = (0::nat)\<rparr>, events = []\<rparr>
        [(Some (\<lambda>h tp msg. 1), ''alerts'', 5, True)])) \<le> 100
   \<and> \<not> fst (mqtt_send_msg (Some (\<lambda>h tp msg. 1)) ''alerts'' 5 True
        \<lparr>mqtt_msg_queue = replicate 100 \<lparr>topic = ''t'', message = (0::nat)\<rparr>, events = []\<rparr>)
   \<and> mqtt_msg_queue (snd (mqtt_send_msg (Some (\<lambda>h tp msg. 1)) ''alerts'' 5 True
        \<lparr>mqtt_msg_queue = replicate 100 \<lparr>topic = ''t'', message = (0::nat)\<rparr>, events = []\<rparr>))
       = replicate 100 \<lparr>topic = ''t'', message = 0\<rparr>"
proof -
  let ?s = "\<lparr>mqtt_msg_queue = replicate 100 \<lparr>topic = ''t'', message = (0::nat)\<rparr>,
              events = []\<rparr>"
  let ?cl = "\<lambda>(h :: nat event list) (tp :: string) (msg :: nat). 1 :: int"
  have bound: "length (mqtt_msg_queue ?s) \<le> maxsize"
    by (simp add: maxsize_def)
  have drained: "mqtt_msg_queue (snd (mqtt_send_queue (Some ?cl) ?s))
                   = replicate 100 \<lparr>topic = ''t'', message = 0\<rparr>"
    using drain_all_fail_reverses[OF bound] by simp
  show ?thesis
    using outbox_never_exceeds_capacity
            [OF bound, of "[(Some ?cl, ''alerts'', 5, True)]" ?cl "''alerts''" 5]
    by (simp add: drained maxsize_def)
qed

subsection \<open>The connect handler on success\<close>

text \<open>
  Whatever the two functions do, they only add to the effect log.
\<close>

lemma events_only_grow:
  "\<exists>es. events (snd (mqtt_send_queue c s)) = events s @ es"
  "\<exists>es. events (snd (mqtt_send_msg c tp msg enq s')) = events s' @ es"
proof (induction c s and c tp msg enq s' rule: mqtt_send_queue_mqtt_send_msg.induct)
  case (1 mqtt_client s)
  show ?case
  proof (cases "mqtt_msg_queue s")
    case Nil
    then show ?thesis by (simp add: mqtt_send_queue_Nil)
  next
    case (Cons q_msg rest)
    define s2 where
      "s2 = emit (Print Info (''Sending enqueued message to topic: '' @ topic q_msg))
              (s\<lparr>mqtt_msg_queue := rest\<rparr>)"
    define r where "r = mqtt_send_msg mqtt_client (topic q_msg) (message q_msg) True s2"
    have "\<exists>es. events (snd r) = events s2 @ es"
      using 1(1)[OF Cons refl refl] by (simp add: r_def s2_def)
    then obtain es where es: "events (snd r) = events s @ es"
      by (auto simp: s2_def emit_def)
    have unfolded: "mqtt_send_queue mqtt_client s =
        (if fst r then mqtt_send_queue mqtt_client (snd r) else (False, snd r))"
      using mqtt_send_queue_Cons[OF Cons, of mqtt_client] by (simp add: Let_def r_def s2_def)
    show ?thesis
    proof (cases "fst r")
      case True
      have "\<exists>es'. events (snd (mqtt_send_queue mqtt_client (snd r))) = events (snd r) @ es'"
        using 1(2)[OF Cons refl refl refl] True by (simp add: r_def s2_def)
      with es True unfolded show ?thesis by auto
    next
      case False
      with es unfolded show ?thesis by simp
    qed
  qed
next
  case (2 mqtt_client tp msg enqueue s)
  show ?case
  proof (cases mqtt_client)
    case None
    then show ?thesis by (simp add: mqtt_send_msg_None emit_def)
  next
    case (Some cl)
    from 2[OF Some] obtain es where
      "events (snd (mqtt_send_queue mqtt_client s)) = events s @ es" by auto
    with Some show ?thesis
      by (simp add: mqtt_send_msg.simps Let_def emit_def put_nowait_def)
  qed
qed

text \<open>
  Claim C6. On a connect acknowledgment with code 0 the handler, after printing that it
  is connected, (a) subscribes again to \<^verbatim>\<open>subscribe_to\<close> (when it is a non-empty list),
  (b) calls \<^verbatim>\<open>cb_success\<close> with the client (when one was given) on the state reached by (a),
  (c) drains the queue on the state the callback returns, the drain only adding to the
  log of the callback. When the drain returns \<^verbatim>\<open>False\<close> the handler does nothing but print
  one warning; it makes no other call on the client.
\<close>

theorem cb_on_connect_success_sequence:
  "(let s_a = s\<lparr>events := events s
                 @ Print Info ''[green]Connected to MQTT Broker[/green]''
                 # (case subscribe_to of
                      Some (sub # subs) \<Rightarrow>
                        [Print Info ''Subscribing to topics:'', PrintSubs (sub # subs),
                         Subscribe (sub # subs)]
                    | _ \<Rightarrow> [])\<rparr>;
        s_b = (case cb_success of None \<Rightarrow> s_a | Some f \<Rightarrow> f client s_a);
        r = mqtt_send_queue (Some client) s_b
    in (\<exists>es. events (snd r) = events s_b @ es)
       \<and> cb_on_connect subscribe_to cb_success client 0 s =
           (if fst r then snd r
            else (snd r)\<lparr>events := events (snd r)
                   @ [Print Warning ''Failed to send MQTT message queue after connecting'']\<rparr>))"
proof -
  have "cb_on_connect subscribe_to cb_success client 0 s =
     (let s_a = s\<lparr>events := events s
                 @ Print Info ''[green]Connected to MQTT Broker[/green]''
                 # (case subscribe_to of
                      Some (sub # subs) \<Rightarrow>
                        [Print Info ''Subscribing to topics:'', PrintSubs (sub # subs),
                         Subscribe (sub # subs)]
                    | _ \<Rightarrow> [])\<rparr>;
        s_b = (case cb_success of None \<Rightarrow> s_a | Some f \<Rightarrow> f client s_a);
        r = mqtt_send_queue (Some client) s_b
      in if fst r then snd r
            else (snd r)\<lparr>events := events (snd r)
                   @ [Print Warning ''Failed to send MQTT message queue after connecting'']\<rparr>)"
    by (simp add: cb_on_connect_def Let_def emit_def split: option.splits list.splits)
  then show ?thesis
    using events_only_grow(1) by (simp add: Let_def)
qed

theorem cb_on_connect_success_sequence_witness:
  "cb_on_connect (Some [(''commands'', 2)])
      (Some (\<lambda>cl s. emit (Print Info ''connected'') s))
      (\<lambda>h tp msg. 1) 0
      \<lparr>mqtt_msg_queue = [\<lparr>topic = ''hello'', message = (0::nat)\<rparr>], events = []\<rparr>
   = \<lparr>mqtt_msg_queue = [\<lparr>topic = ''hello'', message = 0\<rparr>],
      events =
        [Print Info ''[green]Connected to MQTT Broker[/green]'',
         Print Info ''Subscribing to topics:'',
         PrintSubs [(''commands'', 2)],
         Subscribe [(''commands'', 2)],
         Print Info ''connected'',
         Print Info ''Sending enqueued message to topic: hello'',
         Publish ''hello'' 0 1,
         Print Info ''hello | MQTT message [yellow]ENQUEUED[/yellow]'',
         Print Warning ''Failed to send MQTT message queue after connecting'']\<rparr>"
  using cb_on_connect_success_sequence
     [where s = "\<lparr>mqtt_msg_queue = [\<lparr>topic = ''hello'', message = (0::nat)\<rparr>], events = []\<rparr>"
        and subscribe_to = "Some [(''commands'', 2)]"
        and cb_success = "Some (\<lambda>cl s. emit (Print Info ''connected'') s)"
        and client = "\<lambda>h tp msg. 1"]
  by (simp add: run_defs)

subsection \<open>Termination of the mutual recursion\<close>

lemma drain_depth_Nil: "mqtt_msg_queue s = [] \<Longrightarrow> drain_depth c s = 0"
  by (simp add: drain_depth.simps)

lemma drain_depth_Cons:
  "mqtt_msg_queue s = q_msg # rest \<Longrightarrow>
   drain_depth c s =
     (let s2 = emit (Print Info (''Sending enqueued message to topic: '' @ topic q_msg))
                 (s\<lparr>mqtt_msg_queue := rest\<rparr>);
          r = mqtt_send_msg c (topic q_msg) (message q_msg) True s2
      in max (case c of None \<Rightarrow> 0 | Some cl \<Rightarrow> Suc (drain_depth c s2))
             (if fst r then drain_depth c (snd r) else 0))"
  by (subst drain_depth.simps) (simp add: Let_def)

lemma drain_depth_bound: "drain_depth c s \<le> length (mqtt_msg_queue s)"
proof (induction "length (mqtt_msg_queue s)" arbitrary: s rule: less_induct)
  case less
  show ?case
  proof (cases "mqtt_msg_queue s")
    case Nil
    then show ?thesis by (simp add: drain_depth_Nil)
  next
    case (Cons q_msg rest)
    define s2 where
      "s2 = emit (Print Info (''Sending enqueued message to topic: '' @ topic q_msg))
              (s\<lparr>mqtt_msg_queue := rest\<rparr>)"
    define r where "r = mqtt_send_msg c (topic q_msg) (message q_msg) True s2"
    have q2: "length (mqtt_msg_queue s2) = length rest"
      by (simp add: s2_def emit_def)
    have nested: "drain_depth c s2 \<le> length rest"
      using less[of s2] q2 Cons by simp
    have again: "drain_depth c (snd r) \<le> length rest" if "fst r"
    proof -
      have "length (mqtt_msg_queue (snd r)) \<le> length rest"
        using send_msg_length_sent[of c "topic q_msg" "message q_msg" True s2] that q2
        by (simp add: r_def)
      moreover from this have "drain_depth c (snd r) \<le> length (mqtt_msg_queue (snd r))"
        using less[of "snd r"] Cons by simp
      ultimately show ?thesis by simp
    qed
    have "drain_depth c s =
            max (case c of None \<Rightarrow> 0 | Some cl \<Rightarrow> Suc (drain_depth c s2))
                (if fst r then drain_depth c (snd r) else 0)"
      using drain_depth_Cons[OF Cons, of c]
      by (simp add: Let_def s2_def r_def cong: option.case_cong)
    with nested again Cons show ?thesis
      by (auto split: option.splits)
  qed
qed

lemma drain_depth_run_Nil:
  "drain_depth c \<lparr>mqtt_msg_queue = [], events = es\<rparr> = 0"
  by (simp add: drain_depth_Nil)

lemma drain_depth_run_Cons:
  "drain_depth c \<lparr>mqtt_msg_queue = q_msg # rest, events = es\<rparr> =
     (case mqtt_send_msg c (topic q_msg) (message q_msg) True
             \<lparr>mqtt_msg_queue = rest,
              events = es @ [Print Info (''Sending enqueued message to topic: '' @ topic q_msg)]\<rparr>
      of (success, s') \<Rightarrow>
        max (case c of None \<Rightarrow> 0
             | Some cl \<Rightarrow> Suc (drain_depth c \<lparr>mqtt_msg_queue = rest,
                 events = es @ [Print Info (''Sending enqueued message to topic: '' @ topic q_msg)]\<rparr>))
            (if success then drain_depth c s' else 0))"
  by (subst drain_depth.simps)
    (simp add: Let_def emit_def split: prod.splits cong: option.case_cong)

text \<open>
  Claim C10. For every state of the queue, every client (or none) and every behaviour
  of its publish, both \<^verbatim>\<open>mqtt_send_queue\<close> and \<^verbatim>\<open>mqtt_send_msg\<close> terminate: every argument is in
  the accessible part of their call relation. The nesting depth of the drains started
  from a queue is at most the length of that queue at entry, and a drain returns a queue
  no longer than the one it started with (a message is put back only after the nested
  drain has returned, and only the one that was removed before it).
\<close>

theorem drain_and_publish_terminate:
  "mqtt_send_queue_mqtt_send_msg_dom (Inl (mqtt_client, s))
   \<and> mqtt_send_queue_mqtt_send_msg_dom (Inr (mqtt_client, tp, msg, enqueue, s))
   \<and> drain_depth mqtt_client s \<le> length (mqtt_msg_queue s)
   \<and> length (mqtt_msg_queue (snd (mqtt_send_queue mqtt_client s))) \<le> length (mqtt_msg_queue s)"
  by (simp add: call_terminates drain_depth_bound drain_length)

theorem drain_and_publish_terminate_witness:
  "mqtt_send_queue_mqtt_send_msg_dom (Inl (Some (\<lambda>h tp msg. if tp = ''B'' then 1 else 0),
      \<lparr>mqtt_msg_queue = [\<lparr>topic = ''A'', message = (1::nat)\<rparr>, \<lparr>topic = ''B'', message = 2\<rparr>],
       events = []\<rparr>))
   \<and> drain_depth (Some (\<lambda>h tp msg. if tp = ''B'' then 1 else 0))
      \<lparr>mqtt_msg_queue = [\<lparr>topic = ''A'', message = (1::nat)\<rparr>, \<lparr>topic = ''B'', message = 2\<rparr>],
       events = []\<rparr> = 2
   \<and> mqtt_msg_queue (snd (mqtt_send_queue (Some (\<lambda>h tp msg. if tp = ''B'' then 1 else 0))
      \<lparr>mqtt_msg_queue = [\<lparr>topic = ''A'', message = (1::nat)\<rparr>, \<lparr>topic = ''B'', message = 2\<rparr>],
       events = []\<rparr>)) = [\<lparr>topic = ''B'', message = 2\<rparr>]"
  using drain_and_publish_terminate [of "Some (\<lambda>h tp msg. if tp = ''B'' then 1 else 0)"
      "\<lparr>mqtt_msg_queue = [\<lparr>topic = ''A'', message = (1::nat)\<rparr>, \<lparr>topic = ''B'', message = 2\<rparr>],
        events = []\<rparr>" "''A''" 1 True]
  by (simp add: run_defs drain_depth_run_Nil drain_depth_run_Cons)

end
